theory Spec2Isabelle
  imports Main "HOL-Library.Word"
begin

section \<open>Keys, as Go lays them out in memory\<close>

text \<open>
  The package is generic in the key type \<open>K comparable\<close>, and \<open>hash\<close> reads eight bytes
  at the address of its parameter whatever \<open>K\<close> is. A key is modelled as what lies at
  that address when \<open>hash\<close> reads it, on a 64-bit little-endian platform (the benchmarks
  were run on amd64), where \<open>uintptr\<close> and \<open>int\<close> are 64 bits wide. Four layouts are
  modelled; the test file uses the first and the last.
  \<^item> \<open>IntKey i\<close>: an \<open>int\<close> key, one machine word holding the number;
  \<^item> \<open>Int32Key v r\<close>: an \<open>int32\<close> key \<open>v\<close>, four bytes wide, together with the four
    bytes \<open>r\<close> that happen to follow it in memory. They are not part of the key, but
    \<open>hash\<close> reads them. This layout stands for every key type narrower than a word;
  \<^item> \<open>Float64Key b\<close>: a \<open>float64\<close> key with the bit pattern \<open>b\<close>;
  \<^item> \<open>StringKey p s\<close>: a \<open>string\<close> key, a header of two words, the address \<open>p\<close> of the
    bytes and their number; the bytes \<open>s\<close> themselves lie elsewhere. The number of bytes
    is the length of the content and is not stored a second time in the model.
  Structs, arrays, interfaces and pointers as keys are not modelled.
\<close>

type_synonym uintptr = "64 word"

datatype key =
    IntKey "64 word"
  | Int32Key "32 word" "32 word"
  | Float64Key "64 word"
  | StringKey uintptr string

text \<open>
  Go compares keys with \<open>==\<close>, and a Go \<open>map[K]V\<close> identifies keys by \<open>==\<close>. Two strings
  are equal when their bytes are, wherever the bytes are stored; two \<open>int32\<close> are equal
  when their four bytes are, whatever follows them in memory; for \<open>float64\<close> the two zeros
  are equal and a NaN is equal to nothing, not even to itself. A \<open>float64\<close> is a NaN when
  its exponent bits are all set and its fraction is not zero, that is when its low 63
  bits are above those of infinity, and a zero when its low 63 bits are zero.
  \<open>key_value_of\<close> is what \<open>==\<close> compares for a key that is not a NaN.
\<close>

datatype key_value =
    IntValue "64 word"
  | Int32Value "32 word"
  | Float64Value "64 word"
  | StringValue string

definition float_is_nan :: "64 word \<Rightarrow> bool" where
  "float_is_nan b = (9218868437227405312 < take_bit 63 b)"

definition float_is_zero :: "64 word \<Rightarrow> bool" where
  "float_is_zero b = (take_bit 63 b = 0)"

fun is_nan :: "key \<Rightarrow> bool" where
  "is_nan (IntKey i) = False"
| "is_nan (Int32Key v r) = False"
| "is_nan (Float64Key b) = float_is_nan b"
| "is_nan (StringKey p s) = False"

fun key_value_of :: "key \<Rightarrow> key_value" where
  "key_value_of (IntKey i) = IntValue i"
| "key_value_of (Int32Key v r) = Int32Value v"
| "key_value_of (Float64Key b) = Float64Value (if float_is_zero b then 0 else b)"
| "key_value_of (StringKey p s) = StringValue s"

definition key_eq :: "key \<Rightarrow> key \<Rightarrow> bool" where
  "key_eq k1 k2 = (\<not> is_nan k1 \<and> \<not> is_nan k2 \<and> key_value_of k1 = key_value_of k2)"

text \<open>
  \<^verbatim>\<open>*(*uintptr)(unsafe.Pointer(&key))\<close>: the first machine word stored at the address of the
  parameter \<open>key\<close>. For an \<open>int\<close> it is the number and for a \<open>float64\<close> the bit pattern;
  for an \<open>int32\<close> its low half is the key and its high half the four bytes after the key;
  for a \<open>string\<close> it is the first word of the header, the address of the bytes.
\<close>

fun first_word :: "key \<Rightarrow> uintptr" where
  "first_word (IntKey i) = i"
| "first_word (Int32Key v r) = ucast v + push_bit 32 (ucast r)"
| "first_word (Float64Key b) = b"
| "first_word (StringKey p s) = p"

section \<open>Faults\<close>

text \<open>
  Every way in which a call does not return normally is a value: the run-time panics of
  division by zero, of an index out of range, of \<open>make\<close> with a length out of range and
  of a nil pointer, the fatal error of unlocking a mutex that is not locked, and \<open>Blocked\<close> for
  a lock request that waits for ever in a sequential run.
\<close>

datatype fault =
    DivideByZero
  | IndexOutOfRange
  | MakeSliceLenOutOfRange
  | NilPointer
  | UnlockOfUnlocked
  | Blocked

section \<open>The reader-writer lock\<close>

text \<open>
  \<open>sync.RWMutex\<close>, by its abstract state: whether a writer holds it and how many readers
  do. Its zero value is unlocked.
\<close>

record RWMutex =
  writer :: bool
  readers :: nat

definition unlocked :: RWMutex where
  "unlocked = \<lparr>writer = False, readers = 0\<rparr>"

definition Lock :: "RWMutex \<Rightarrow> fault + RWMutex" where
  "Lock l = (if writer l \<or> readers l \<noteq> 0 then Inl Blocked else Inr (l\<lparr>writer := True\<rparr>))"

definition Unlock :: "RWMutex \<Rightarrow> fault + RWMutex" where
  "Unlock l = (if writer l then Inr (l\<lparr>writer := False\<rparr>) else Inl UnlockOfUnlocked)"

definition RLock :: "RWMutex \<Rightarrow> fault + RWMutex" where
  "RLock l = (if writer l then Inl Blocked else Inr (l\<lparr>readers := Suc (readers l)\<rparr>))"

definition RUnlock :: "RWMutex \<Rightarrow> fault + RWMutex" where
  "RUnlock l = (if readers l = 0 then Inl UnlockOfUnlocked
                else Inr (l\<lparr>readers := readers l - 1\<rparr>))"

section \<open>Shards and the heap\<close>

text \<open>
  A Go \<open>map[K]V\<close>. Its entries under keys that are not NaN are a partial function on key
  values. An entry stored under a NaN key stays in the map, but no index expression and
  no \<open>delete\<close> can reach it again; of these entries the values are kept, in the order in
  which they were stored.
\<close>

record 'v gomap =
  entries :: "key_value \<rightharpoonup> 'v"
  nan_entries :: "'v list"

text \<open>\<^verbatim>\<open>make(map[K]V)\<close>\<close>

definition make_map :: "'v gomap" where
  "make_map = \<lparr>entries = Map.empty, nan_entries = []\<rparr>"

text \<open>
  \<^verbatim>\<open>type Shard[K comparable, V any] struct { m map[K]V; mu sync.RWMutex }\<close>
\<close>

record 'v Shard =
  m :: "'v gomap"
  mu :: RWMutex

text \<open>
  \<open>CSMap\<close> holds pointers to its shards, so the shards live in a heap. The heap is the list
  of all shards allocated so far and an address is a position in it; a pointer is \<open>None\<close>
  for \<open>nil\<close> or \<open>Some\<close> address. Nothing is ever freed.
\<close>

type_synonym 'v heap = "'v Shard list"
type_synonym ptr = "nat option"

text \<open>\<^verbatim>\<open>&Shard[K, V]{m: make(map[K]V)}\<close>: an empty map and the zero mutex.\<close>

definition new_shard :: "'v Shard" where
  "new_shard = \<lparr>m = make_map, mu = unlocked\<rparr>"

text \<open>Reading the shard behind a pointer; \<open>nil\<close> and an address outside the heap fault.\<close>

definition deref :: "'v heap \<Rightarrow> ptr \<Rightarrow> fault + 'v Shard" where
  "deref h p = (case p of
      None \<Rightarrow> Inl NilPointer
    | Some a \<Rightarrow> if a < length h then Inr (h ! a) else Inl NilPointer)"

text \<open>A method of the mutex of the shard behind \<open>s\<close>, as in \<^verbatim>\<open>s.mu.Lock()\<close>.\<close>

definition on_mu :: "(RWMutex \<Rightarrow> fault + RWMutex) \<Rightarrow> ptr \<Rightarrow> 'v heap \<Rightarrow> fault + 'v heap" where
  "on_mu f s h = (case s of
      None \<Rightarrow> Inl NilPointer
    | Some a \<Rightarrow>
        if a < length h then
          (case f (mu (h ! a)) of
             Inl e \<Rightarrow> Inl e
           | Inr l \<Rightarrow> Inr (h[a := (h ! a)\<lparr>mu := l\<rparr>]))
        else Inl NilPointer)"

text \<open>A statement that changes the map of the shard behind \<open>s\<close>, as in \<^verbatim>\<open>s.m[key] = value\<close>.\<close>

definition on_m :: "('v gomap \<Rightarrow> 'v gomap) \<Rightarrow> ptr \<Rightarrow> 'v heap \<Rightarrow> fault + 'v heap" where
  "on_m f s h = (case s of
      None \<Rightarrow> Inl NilPointer
    | Some a \<Rightarrow>
        if a < length h then Inr (h[a := (h ! a)\<lparr>m := f (m (h ! a))\<rparr>])
        else Inl NilPointer)"

text \<open>
  The three map statements of the source. \<^verbatim>\<open>s.m[key] = value\<close> overwrites the entry of
  an equal key or adds one; under a NaN key it always adds one.
\<close>

definition map_assign :: "key \<Rightarrow> 'v \<Rightarrow> 'v gomap \<Rightarrow> 'v gomap" where
  "map_assign k v mp =
     (if is_nan k then mp\<lparr>nan_entries := nan_entries mp @ [v]\<rparr>
      else mp\<lparr>entries := (entries mp)(key_value_of k \<mapsto> v)\<rparr>)"

text \<open>\<^verbatim>\<open>delete(s.m, key)\<close> removes the entry of an equal key, if there is one.\<close>

definition map_delete :: "key \<Rightarrow> 'v gomap \<Rightarrow> 'v gomap" where
  "map_delete k mp =
     (if is_nan k then mp else mp\<lparr>entries := (entries mp)(key_value_of k := None)\<rparr>)"

text \<open>\<^verbatim>\<open>v, ok := s.m[key]\<close>: an absent key gives the zero value of \<open>V\<close> and \<open>false\<close>.\<close>

definition map_index :: "'v::zero gomap \<Rightarrow> key \<Rightarrow> 'v \<times> bool" where
  "map_index mp k =
     (if is_nan k then (0, False)
      else (case entries mp (key_value_of k) of None \<Rightarrow> (0, False) | Some v \<Rightarrow> (v, True)))"

section \<open>CSMap\<close>

text \<open>
  \<^verbatim>\<open>type CSMap[K comparable, V any] struct { shards []*Shard[K, V]; length int }\<close>
  The field \<open>length\<close> is written \<open>length'\<close>, since \<open>length\<close> is the length of a list. It is
  a Go \<open>int\<close>: a 64-bit word read as two's complement.
\<close>

record CSMap =
  shards :: "ptr list"
  length' :: "64 word"

text \<open>
  The loop of \<open>NewCSMap\<close>, started at \<open>i = 0\<close> on the slice of \<open>nil\<close> pointers that \<open>make\<close>
  returns: each round allocates a fresh shard and stores its address at position \<open>i\<close>.
  The counter never overflows, since it stays below a length that \<open>make\<close> has accepted.
\<close>

function fill :: "nat \<Rightarrow> nat \<Rightarrow> ptr list \<Rightarrow> 'v heap \<Rightarrow> ptr list \<times> 'v heap" where
  "fill i n ss h =
     (if i < n then fill (Suc i) n (ss[i := Some (length h)]) (h @ [new_shard])
      else (ss, h))"
  by pat_completeness auto
termination
  by (relation "measure (\<lambda>(i, n, ss, h). n - i)") auto

declare fill.simps [simp del]

text \<open>
  \<^verbatim>\<open>make([]*Shard[K, V], length)\<close> panics with \<open>makeslice: len out of range\<close> when the
  length is negative, and also when the slice would be larger than the run time's
  allocator can address: on 64-bit Linux that is \<open>maxAlloc = 2^48\<close> bytes, and an element
  is a pointer of 8 bytes, so that the greatest length \<open>make\<close> accepts is \<open>2^45\<close>. Within
  this limit the model takes the memory to be there: running out of memory, which ends
  the whole program, is not modelled.
\<close>

definition max_slice_len :: int where
  "max_slice_len = 2 ^ 45"

text \<open>
  \<open>NewCSMap\<close>: \<open>make\<close> panics or returns a slice of \<open>nil\<close> pointers; then the slice is
  filled and the structure returned.
\<close>

definition NewCSMap :: "64 word \<Rightarrow> 'v heap \<Rightarrow> fault + (CSMap \<times> 'v heap)" where
  "NewCSMap len h =
     (if sint len < 0 \<or> max_slice_len < sint len then Inl MakeSliceLenOutOfRange
      else
        (case fill 0 (nat (sint len)) (replicate (nat (sint len)) None) h of
           (ss, h') \<Rightarrow> Inr (\<lparr>shards = ss, length' = len\<rparr>, h')))"

text \<open>
  \<open>hash\<close>: the first word of the key modulo \<open>uintptr(c.length)\<close>, the same 64 bits read as
  unsigned. Division by zero panics in Go.
\<close>

definition hash :: "CSMap \<Rightarrow> key \<Rightarrow> fault + uintptr" where
  "hash c k = (if length' c = 0 then Inl DivideByZero else Inr (first_word k mod length' c))"

text \<open>\<open>getShard\<close>: indexing the slice is bounds-checked.\<close>

definition getShard :: "CSMap \<Rightarrow> key \<Rightarrow> fault + ptr" where
  "getShard c k = (case hash c k of
      Inl e \<Rightarrow> Inl e
    | Inr i \<Rightarrow> if unat i < length (shards c) then Inr (shards c ! unat i)
               else Inl IndexOutOfRange)"

text \<open>
  \<open>Set\<close>, \<open>Get\<close> and \<open>Delete\<close>. The deferred unlock runs when the body is done; the body
  itself cannot panic once the lock is held.
\<close>

definition Set :: "CSMap \<Rightarrow> key \<Rightarrow> 'v \<Rightarrow> 'v heap \<Rightarrow> fault + 'v heap" where
  "Set c k v h = (case getShard c k of
      Inl e \<Rightarrow> Inl e
    | Inr s \<Rightarrow>
       (case on_mu Lock s h of
          Inl e \<Rightarrow> Inl e
        | Inr h1 \<Rightarrow>
           (case on_m (map_assign k v) s h1 of
              Inl e \<Rightarrow> Inl e
            | Inr h2 \<Rightarrow> on_mu Unlock s h2)))"

definition Get :: "CSMap \<Rightarrow> key \<Rightarrow> 'v heap \<Rightarrow> fault + (('v::zero \<times> bool) \<times> 'v heap)" where
  "Get c k h = (case getShard c k of
      Inl e \<Rightarrow> Inl e
    | Inr s \<Rightarrow>
       (case on_mu RLock s h of
          Inl e \<Rightarrow> Inl e
        | Inr h1 \<Rightarrow>
           (case deref h1 s of
              Inl e \<Rightarrow> Inl e
            | Inr sh \<Rightarrow>
               (case on_mu RUnlock s h1 of
                  Inl e \<Rightarrow> Inl e
                | Inr h2 \<Rightarrow> Inr (map_index (m sh) k, h2)))))"

definition Delete :: "CSMap \<Rightarrow> key \<Rightarrow> 'v heap \<Rightarrow> fault + 'v heap" where
  "Delete c k h = (case getShard c k of
      Inl e \<Rightarrow> Inl e
    | Inr s \<Rightarrow>
       (case on_mu Lock s h of
          Inl e \<Rightarrow> Inl e
        | Inr h1 \<Rightarrow>
           (case on_m (map_delete k) s h1 of
              Inl e \<Rightarrow> Inl e
            | Inr h2 \<Rightarrow> on_mu Unlock s h2)))"


section \<open>The state of a map between two calls\<close>

text \<open>
  What \<open>NewCSMap\<close> establishes and every operation keeps: the field \<open>length'\<close> is the
  number of shards, no two positions of \<open>shards\<close> hold the same pointer, and every
  pointer is the address of an allocated shard whose lock is free.
\<close>

definition csmap_inv :: "CSMap \<Rightarrow> 'v heap \<Rightarrow> bool" where
  "csmap_inv c h \<longleftrightarrow>
     length (shards c) = unat (length' c) \<and>
     distinct (shards c) \<and>
     (\<forall>p \<in> set (shards c).
        case p of None \<Rightarrow> False | Some a \<Rightarrow> a < length h \<and> mu (h ! a) = unlocked)"

text \<open>The position in \<open>shards\<close> that \<open>hash\<close> computes for a key, as a number.\<close>

definition slot :: "CSMap \<Rightarrow> key \<Rightarrow> nat" where
  "slot c k = unat (first_word k mod length' c)"



text \<open>
  A sequential client: a list of calls on one map, run in order; a fault ends the run.
  The result of \<open>Get\<close> is dropped, its heap is kept.
\<close>

datatype 'v operation = DoSet key 'v | DoGet key | DoDelete key

fun perform :: "CSMap \<Rightarrow> 'v::zero operation \<Rightarrow> 'v heap \<Rightarrow> fault + 'v heap" where
  "perform c (DoSet k v) h = Set c k v h"
| "perform c (DoGet k) h = (case Get c k h of Inl e \<Rightarrow> Inl e | Inr (r, h') \<Rightarrow> Inr h')"
| "perform c (DoDelete k) h = Delete c k h"

fun run :: "CSMap \<Rightarrow> 'v::zero operation list \<Rightarrow> 'v heap \<Rightarrow> fault + 'v heap" where
  "run c [] h = Inr h"
| "run c (x # xs) h = (case perform c x h of Inl e \<Rightarrow> Inl e | Inr h' \<Rightarrow> run c xs h')"

text \<open>
  \<open>holds c h j kv\<close>: the mapping of the shard at position \<open>j\<close> has an entry for the key
  value \<open>kv\<close>. \<open>int_keys_routed\<close>: every entry is an \<open>int\<close> key and sits in the shard
  that \<open>hash\<close> computes for it.
\<close>

definition holds :: "CSMap \<Rightarrow> 'v heap \<Rightarrow> nat \<Rightarrow> key_value \<Rightarrow> bool" where
  "holds c h j kv \<longleftrightarrow>
     (case deref h (shards c ! j) of
        Inl e \<Rightarrow> False
      | Inr sh \<Rightarrow> entries (m sh) kv \<noteq> None)"

definition int_keys_routed :: "CSMap \<Rightarrow> 'v heap \<Rightarrow> bool" where
  "int_keys_routed c h \<longleftrightarrow>
     (\<forall>j < length (shards c). \<forall>kv. holds c h j kv \<longrightarrow>
        (\<exists>i. kv = IntValue i \<and> slot c (IntKey i) = j))"

section \<open>Construction\<close>

text \<open>
  The loop started at \<open>i\<close> leaves the first \<open>i\<close> positions alone, stores the addresses of
  \<open>n - i\<close> fresh shards in the others and appends these shards to the heap.
\<close>

lemma fill_eq:
  "i \<le> n \<Longrightarrow> length ss = n \<Longrightarrow>
   fill i n ss h =
     (take i ss @ map Some [length h ..< length h + (n - i)], h @ replicate (n - i) new_shard)"
proof (induction i n ss h rule: fill.induct)
  case (1 i n ss h)
  show ?case
  proof (cases "i < n")
    case True
    have a: "take (Suc i) (ss[i := Some (length h)]) = take i ss @ [Some (length h)]"
      using True 1(3) by (simp add: take_Suc_conv_app_nth)
    have b: "[length h ..< length h + (n - i)] = length h # [Suc (length h) ..< Suc (length h) + (n - Suc i)]"
    proof -
      have "n - i = Suc (n - Suc i)" using True by simp
      then show ?thesis by (simp add: upt_rec[of "length h"] del: upt_Suc)
    qed
    have c: "replicate (n - i) (new_shard::'a Shard) = new_shard # replicate (n - Suc i) new_shard"
      using True by (metis Suc_diff_Suc replicate_Suc)
    have "fill i n ss h = fill (Suc i) n (ss[i := Some (length h)]) (h @ [new_shard])"
      using True by (subst fill.simps) simp
    also have "\<dots> = (take (Suc i) (ss[i := Some (length h)]) @ map Some [Suc (length h) ..< Suc (length h) + (n - Suc i)],
                    (h @ [new_shard]) @ replicate (n - Suc i) new_shard)"
      using 1(1)[OF True] True 1(3) by simp
    finally show ?thesis unfolding a b c by simp
  next
    case False
    then show ?thesis using 1(2,3) by (subst fill.simps) simp
  qed
qed

lemma NewCSMap_eq:
  "0 \<le> sint len \<Longrightarrow> sint len \<le> max_slice_len \<Longrightarrow>
   NewCSMap len h =
     Inr (\<lparr>shards = map Some [length h ..< length h + nat (sint len)], length' = len\<rparr>,
          h @ replicate (nat (sint len)) new_shard)"
  by (simp add: NewCSMap_def fill_eq)

lemma NewCSMap_accepted:
  assumes "NewCSMap len h = Inr (c, h')"
  shows "0 \<le> sint len" and "sint len \<le> max_slice_len"
  using assms by (auto simp: NewCSMap_def split: if_splits)

lemma sint_nonneg_uint:
  fixes w :: "'a::len word"
  assumes "0 \<le> sint w"
  shows "sint w = uint w"
proof -
  have nb: "\<not> bit (uint w) (LENGTH('a) - Suc 0)"
    using assms by (simp add: bit_uint_iff bit_last_iff)
  have "sint w = signed_take_bit (LENGTH('a) - Suc 0) (uint w)"
    by (rule sint_uint)
  also have "\<dots> = take_bit (LENGTH('a) - Suc 0) (uint w)"
    using nb by (rule signed_take_bit_eq_if_positive)
  also have "\<dots> = uint w"
  proof (rule bit_eqI)
    fix i
    have "bit (uint w) i \<Longrightarrow> i < LENGTH('a) - Suc 0"
    proof -
      assume b: "bit (uint w) i"
      then have "i < LENGTH('a)" by (simp add: bit_uint_iff)
      moreover have "i \<noteq> LENGTH('a) - Suc 0" using b nb by auto
      ultimately show ?thesis by simp
    qed
    then show "bit (take_bit (LENGTH('a) - Suc 0) (uint w)) i = bit (uint w) i"
      by (auto simp: bit_take_bit_iff)
  qed
  finally show ?thesis .
qed

lemma nat_sint_unat: "0 \<le> sint (w::'a::len word) \<Longrightarrow> nat (sint w) = unat w"
  by (simp add: sint_nonneg_uint)

text \<open>A map that \<open>NewCSMap\<close> returns is in a state between two calls.\<close>

lemma NewCSMap_inv:
  assumes "NewCSMap len h = Inr (c, h')"
  shows "csmap_inv c h'"
proof -
  have nn: "0 \<le> sint len" and le: "sint len \<le> max_slice_len"
    using NewCSMap_accepted[OF assms] by simp_all
  have c: "c = \<lparr>shards = map Some [length h ..< length h + nat (sint len)], length' = len\<rparr>"
    and h': "h' = h @ replicate (nat (sint len)) new_shard"
    using assms NewCSMap_eq[OF nn le, of h] by simp_all
  show ?thesis
    unfolding csmap_inv_def c h'
    by (auto simp: nat_sint_unat[OF nn] distinct_map nth_append new_shard_def)
qed

text \<open>\<open>NewCSMap(2)\<close> on the empty heap, the map of the test \<open>TestCSMap_HashCollision\<close>.\<close>

lemma NewCSMap_two:
  "NewCSMap 2 ([] :: int Shard list) = Inr (\<lparr>shards = [Some 0, Some 1], length' = 2\<rparr>, ([new_shard, new_shard] :: int Shard list))"
  by (simp add: NewCSMap_eq max_slice_len_def numeral_2_eq_2 upt_rec)

section \<open>What a call does in a state between two calls\<close>

text \<open>
  With at least one shard, \<open>getShard\<close> returns the address of an allocated shard whose
  lock is free.
\<close>

lemma getShard_inv:
  assumes "csmap_inv c h" and "length' c \<noteq> 0"
  shows "\<exists>a. getShard c k = Inr (Some a) \<and> shards c ! slot c k = Some a \<and>
             slot c k < length (shards c) \<and> a < length h \<and> mu (h ! a) = unlocked"
proof -
  have len: "length (shards c) = unat (length' c)"
    using assms(1) by (simp add: csmap_inv_def)
  have "0 < length' c" using assms(2) by (simp add: word_greater_zero_iff)
  then have "first_word k mod length' c < length' c" by (rule word_mod_less_divisor)
  then have lt: "slot c k < length (shards c)"
    by (simp add: slot_def len word_less_nat_alt)
  then have "shards c ! slot c k \<in> set (shards c)" by simp
  then obtain a where a: "shards c ! slot c k = Some a" "a < length h" "mu (h ! a) = unlocked"
    using assms(1) by (auto simp: csmap_inv_def split: option.splits)
  have "getShard c k = Inr (Some a)"
    using assms(2) lt a(1) by (simp add: getShard_def hash_def slot_def)
  then show ?thesis using a lt by blast
qed

lemma mu_update_same: "mu s = l \<Longrightarrow> s\<lparr>mu := l\<rparr> = s"
  by (cases s) simp


text \<open>
  On such a shard the lock is taken and released again, so that a call changes the heap
  at one address, and there only the mapping.
\<close>

lemma Set_eq:
  assumes "getShard c k = Inr (Some a)" and "a < length h" and "mu (h ! a) = unlocked"
  shows "Set c k v h = Inr (h[a := (h ! a)\<lparr>m := map_assign k v (m (h ! a))\<rparr>])"
  using assms by (simp add: Set_def on_mu_def on_m_def Lock_def Unlock_def unlocked_def mu_update_same)

lemma Delete_eq:
  assumes "getShard c k = Inr (Some a)" and "a < length h" and "mu (h ! a) = unlocked"
  shows "Delete c k h = Inr (h[a := (h ! a)\<lparr>m := map_delete k (m (h ! a))\<rparr>])"
  using assms by (simp add: Delete_def on_mu_def on_m_def Lock_def Unlock_def unlocked_def mu_update_same)

lemma Get_eq:
  assumes "getShard c k = Inr (Some a)" and "a < length h" and "mu (h ! a) = unlocked"
  shows "Get c k h = Inr (map_index (m (h ! a)) k, h)"
  using assms
  by (simp add: Get_def on_mu_def deref_def RLock_def RUnlock_def unlocked_def mu_update_same)

lemma Get_returns_heap:
  assumes "Get c k h = Inr (r, h')"
  shows "h' = h"
  using assms
  by (auto simp: Get_def on_mu_def deref_def RLock_def RUnlock_def mu_update_same
           split: sum.splits option.splits if_splits)

text \<open>With \<open>length' = 0\<close> every call stops in \<open>hash\<close>, before it touches the heap.\<close>

lemma Set_zero_length: "length' c = 0 \<Longrightarrow> Set c k v g = Inl DivideByZero"
  by (simp add: Set_def getShard_def hash_def)

lemma Get_zero_length: "length' c = 0 \<Longrightarrow> Get c k g = Inl DivideByZero"
  by (simp add: Get_def getShard_def hash_def)

lemma Delete_zero_length: "length' c = 0 \<Longrightarrow> Delete c k g = Inl DivideByZero"
  by (simp add: Delete_def getShard_def hash_def)

text \<open>The operations keep the state between two calls.\<close>

lemma inv_update_m:
  assumes "csmap_inv c h" and "a < length h"
  shows "csmap_inv c (h[a := (h ! a)\<lparr>m := f (m (h ! a))\<rparr>])"
  using assms
  by (auto simp: csmap_inv_def nth_list_update split: option.splits)

lemma Set_inv:
  assumes "csmap_inv c h" and "Set c k v h = Inr h'"
  shows "csmap_inv c h'"
proof (cases "length' c = 0")
  case True
  then show ?thesis using assms(2) Set_zero_length[of c k v h] by simp
next
  case False
  from getShard_inv[OF assms(1) False, of k] obtain a where
    a: "getShard c k = Inr (Some a)" "a < length h" "mu (h ! a) = unlocked" by blast
  show ?thesis
    using assms(2) inv_update_m[OF assms(1) a(2)] unfolding Set_eq[OF a] by auto
qed

lemma Delete_inv:
  assumes "csmap_inv c h" and "Delete c k h = Inr h'"
  shows "csmap_inv c h'"
proof (cases "length' c = 0")
  case True
  then show ?thesis using assms(2) Delete_zero_length[of c k h] by simp
next
  case False
  from getShard_inv[OF assms(1) False, of k] obtain a where
    a: "getShard c k = Inr (Some a)" "a < length h" "mu (h ! a) = unlocked" by blast
  show ?thesis
    using assms(2) inv_update_m[OF assms(1) a(2)] unfolding Delete_eq[OF a] by auto
qed

text \<open>Another position of \<open>shards\<close> is another shard.\<close>

lemma other_slot_other_address:
  assumes "csmap_inv c h" and "shards c ! i = Some a" and "i < length (shards c)"
    and "j < length (shards c)" and "j \<noteq> i"
  shows "shards c ! j \<noteq> Some a"
proof -
  have "distinct (shards c)" using assms(1) by (simp add: csmap_inv_def)
  then show ?thesis using assms(2-5) nth_eq_iff_index_eq[of "shards c" j i] by auto
qed

lemma deref_update_other:
  assumes "p \<noteq> Some a"
  shows "deref (h[a := s]) p = deref h p"
  using assms by (cases p) (auto simp: deref_def nth_list_update)

section \<open>Sequences of calls\<close>

text \<open>
  Every state that a sequential client reaches from \<open>NewCSMap\<close> is a state between two
  calls, and with at least one shard no call of the client faults.
\<close>

lemma perform_inv:
  assumes "csmap_inv c h" and "perform c x h = Inr h'"
  shows "csmap_inv c h'"
proof (cases x)
  case (DoSet k v)
  then show ?thesis using assms Set_inv by auto
next
  case (DoGet k)
  then show ?thesis using assms Get_returns_heap[of c k h]
    by (auto split: sum.splits)
next
  case (DoDelete k)
  then show ?thesis using assms Delete_inv by auto
qed

lemma perform_returns:
  assumes "csmap_inv c h" and "length' c \<noteq> 0"
  shows "\<exists>h'. perform c x h = Inr h'"
proof -
  from getShard_inv[OF assms] have
    a: "\<And>k. \<exists>a. getShard c k = Inr (Some a) \<and> a < length h \<and> mu (h ! a) = unlocked"
    by blast
  show ?thesis
  proof (cases x)
    case (DoSet k v)
    then show ?thesis using a[of k] Set_eq[of c k _ h v] by auto
  next
    case (DoGet k)
    then show ?thesis using a[of k] Get_eq[of c k _ h] by auto
  next
    case (DoDelete k)
    then show ?thesis using a[of k] Delete_eq[of c k _ h] by auto
  qed
qed

lemma run_inv:
  "csmap_inv c h \<Longrightarrow> run c xs h = Inr h' \<Longrightarrow> csmap_inv c h'"
proof (induction xs arbitrary: h)
  case Nil
  then show ?case by simp
next
  case (Cons x xs)
  then show ?case by (auto split: sum.splits dest: perform_inv)
qed

lemma run_returns:
  "csmap_inv c h \<Longrightarrow> length' c \<noteq> 0 \<Longrightarrow> \<exists>h'. run c xs h = Inr h'"
proof (induction xs arbitrary: h)
  case Nil
  then show ?case by simp
next
  case (Cons x xs)
  from perform_returns[OF Cons.prems, of x] obtain h1 where h1: "perform c x h = Inr h1" by blast
  then have "csmap_inv c h1" using Cons.prems(1) perform_inv by blast
  from Cons.IH[OF this Cons.prems(2)] h1 show ?case by simp
qed

lemma reachable_inv:
  assumes "NewCSMap len h0 = Inr (c, h1)" and "run c xs h1 = Inr h"
  shows "csmap_inv c h \<and> (0 < sint len \<longrightarrow> length' c \<noteq> 0)"
proof -
  have nn: "0 \<le> sint len" and le: "sint len \<le> max_slice_len"
    using NewCSMap_accepted[OF assms(1)] by simp_all
  have "length' c = len" using assms(1) NewCSMap_eq[OF nn le, of h0] by auto
  moreover have "csmap_inv c h" using NewCSMap_inv[OF assms(1)] assms(2) by (rule run_inv)
  ultimately show ?thesis by auto
qed

section \<open>A map of two shards\<close>

text \<open>
  The map that \<open>NewCSMap(2)\<close> returns on the empty heap, in its first state and in a
  state where the shard at position 0 has an entry for the \<open>int\<close> key 2.
\<close>

lemma two_shards_inv:
  "csmap_inv \<lparr>shards = [Some 0, Some 1], length' = 2\<rparr> ([new_shard, new_shard] :: int Shard list)"
  by (simp add: csmap_inv_def new_shard_def)

lemma two_shards_nonzero: "length' \<lparr>shards = [Some 0, Some 1], length' = 2\<rparr> \<noteq> 0"
  by simp



section \<open>The shard index as a function of the key\<close>

text \<open>
  \<open>hash\<close> has no state: its result is a function of the first machine word of the key
  and of the shard count, the same in every call and in every map with that count. For
  \<open>int\<close> keys the first word is the value, so equal \<open>int\<close> keys have the same index.
\<close>

lemma hash_of_first_word:
  "first_word k1 = first_word k2 \<Longrightarrow> length' c1 = length' c2 \<Longrightarrow> hash c1 k1 = hash c2 k2"
  by (simp add: hash_def)

lemma hash_int_keys:
  "key_eq (IntKey a) (IntKey b) \<Longrightarrow> length' c1 = length' c2 \<Longrightarrow>
   hash c1 (IntKey a) = hash c2 (IntKey b)"
  by (simp add: key_eq_def hash_def)

text \<open>
  Claim C1: for a fixed shard count the shard index computed by \<open>hash\<close> is a function of
  the value of the key; keys equal by \<open>==\<close> have the same index, wherever they are stored.

  The code does not do this for \<open>string\<close> keys. The first word of a string is the
  address of its bytes: the equal strings \<open>"key1"\<close> with their bytes at addresses 4096 and
  4101 get the indexes 0 and 1 in a map of two shards.
\<close>

theorem hash_depends_on_string_address:
  "key_eq (StringKey 4096 ''key1'') (StringKey 4101 ''key1'') \<and>
   hash \<lparr>shards = [Some 0, Some 1], length' = 2\<rparr> (StringKey 4096 ''key1'') = Inr 0 \<and>
   hash \<lparr>shards = [Some 0, Some 1], length' = 2\<rparr> (StringKey 4101 ''key1'') = Inr 1"
  by (simp add: key_eq_def hash_def)

text \<open>
  The same happens to keys narrower than a word. With three shards the \<open>int32\<close> key 7 gets
  the index 1 when the four bytes after it are zero, and the index 2 when they hold the
  number 1. And the two zeros of \<open>float64\<close>, equal by \<open>==\<close>, get the indexes 0 and 2.
\<close>

lemma hash_depends_on_bytes_after_int32:
  "key_eq (Int32Key 7 0) (Int32Key 7 1) \<and>
   hash \<lparr>shards = [Some 0, Some 1, Some 2], length' = 3\<rparr> (Int32Key 7 0) = Inr 1 \<and>
   hash \<lparr>shards = [Some 0, Some 1, Some 2], length' = 3\<rparr> (Int32Key 7 1) = Inr 2"
  by (simp add: key_eq_def hash_def)

lemma hash_depends_on_sign_of_zero:
  "key_eq (Float64Key 0) (Float64Key 9223372036854775808) \<and>
   hash \<lparr>shards = [Some 0, Some 1, Some 2], length' = 3\<rparr> (Float64Key 0) = Inr 0 \<and>
   hash \<lparr>shards = [Some 0, Some 1, Some 2], length' = 3\<rparr> (Float64Key 9223372036854775808) = Inr 2"
  by (simp add: key_eq_def hash_def float_is_nan_def float_is_zero_def)

section \<open>Construction with any shard count\<close>

text \<open>
  Claim \<lparr>shards = [Some 0, Some 1], length' = 2\<rparr>, as stated, says that construction with a shard count of zero or less fails
  with an InvalidConfiguration condition. \<open>NewCSMap\<close> checks nothing: with the count 0
  it returns a map.
\<close>

theorem NewCSMap_zero_returns:
  "NewCSMap 0 ([] :: int Shard list) = Inr (\<lparr>shards = [], length' = 0\<rparr>, [])"
  by (simp add: NewCSMap_def max_slice_len_def fill.simps)

text \<open>
  Claim \<lparr>shards = [Some 0, Some 1], length' = 2\<rparr>, amended: construction with a negative shard count, or with one above the
  greatest length that \<open>make\<close> accepts, panics in \<open>make\<close> and produces no map;
  construction with the count 0 returns a map without shards, on which every \<open>Set\<close>,
  \<open>Get\<close> and \<open>Delete\<close> panics with a division by zero; construction with a positive count
  that \<open>make\<close> accepts returns a map with that many shards, each one freshly allocated at
  an address of its own, with an empty mapping and a free lock, and leaves the shards
  that were on the heap before as they were.
\<close>

theorem NewCSMap_outcomes:
  "(sint len < 0 \<or> max_slice_len < sint len \<longrightarrow>
      NewCSMap len h = Inl MakeSliceLenOutOfRange) \<and>
   (len = 0 \<longrightarrow>
      NewCSMap len h = Inr (\<lparr>shards = [], length' = 0\<rparr>, h) \<and>
      (\<forall>k v g. Set \<lparr>shards = [], length' = 0\<rparr> k v g = Inl DivideByZero \<and>
               Get \<lparr>shards = [], length' = 0\<rparr> k (g :: 'v::zero heap) = Inl DivideByZero \<and>
               Delete \<lparr>shards = [], length' = 0\<rparr> k g = Inl DivideByZero)) \<and>
   (0 < sint len \<and> sint len \<le> max_slice_len \<longrightarrow>
      (\<exists>c h'. NewCSMap len h = Inr (c, h') \<and>
         length' c = len \<and> length (shards c) = nat (sint len) \<and> distinct (shards c) \<and>
         h' = h @ replicate (nat (sint len)) new_shard \<and>
         (\<forall>j < nat (sint len).
            shards c ! j = Some (length h + j) \<and> deref h' (shards c ! j) = Inr new_shard)))"
proof (intro conjI impI)
  assume "sint len < 0 \<or> max_slice_len < sint len"
  then show "NewCSMap len h = Inl MakeSliceLenOutOfRange" by (auto simp: NewCSMap_def)
next
  assume "len = 0"
  then show "NewCSMap len h = Inr (\<lparr>shards = [], length' = 0\<rparr>, h)"
    by (simp add: NewCSMap_eq max_slice_len_def)
next
  show "\<forall>k v g. Set \<lparr>shards = [], length' = 0\<rparr> k v g = Inl DivideByZero \<and>
               Get \<lparr>shards = [], length' = 0\<rparr> k (g :: 'v heap) = Inl DivideByZero \<and>
               Delete \<lparr>shards = [], length' = 0\<rparr> k g = Inl DivideByZero"
    by (simp add: Set_zero_length Get_zero_length Delete_zero_length)
next
  assume "0 < sint len \<and> sint len \<le> max_slice_len"
  then have nn: "0 \<le> sint len" and le: "sint len \<le> max_slice_len" by simp_all
  show "\<exists>c h'. NewCSMap len h = Inr (c, h') \<and>
         length' c = len \<and> length (shards c) = nat (sint len) \<and> distinct (shards c) \<and>
         h' = h @ replicate (nat (sint len)) new_shard \<and>
         (\<forall>j < nat (sint len).
            shards c ! j = Some (length h + j) \<and> deref h' (shards c ! j) = Inr new_shard)"
    unfolding NewCSMap_eq[OF nn le]
    by (auto simp: distinct_map deref_def nth_append)
qed

text \<open>The cases at the counts -1, \<open>2^62\<close>, 0 and 2.\<close>

theorem NewCSMap_outcomes_witness:
  "NewCSMap (- 1) ([] :: int Shard list) = Inl MakeSliceLenOutOfRange \<and>
   NewCSMap 4611686018427387904 ([] :: int Shard list) = Inl MakeSliceLenOutOfRange \<and>
   NewCSMap 0 ([] :: int Shard list) = Inr (\<lparr>shards = [], length' = 0\<rparr>, []) \<and>
   Get \<lparr>shards = [], length' = 0\<rparr> (IntKey 1) ([] :: int Shard list) = Inl DivideByZero \<and>
   (\<exists>c h'. NewCSMap 2 ([] :: int Shard list) = Inr (c, h') \<and>
      shards c = [Some 0, Some 1] \<and> h' = [new_shard, new_shard])"
proof -
  have a: "sint (- 1 :: 64 word) < 0" by simp
  have big: "max_slice_len < sint (4611686018427387904 :: 64 word)"
    by (simp add: max_slice_len_def)
  have b: "0 < sint (2 :: 64 word) \<and> sint (2 :: 64 word) \<le> max_slice_len"
    by (simp add: max_slice_len_def)
  have n2: "nat (sint (2 :: 64 word)) = 2" by simp
  from NewCSMap_outcomes[of "- 1" "[] :: int Shard list"] a
  have 1: "NewCSMap (- 1) ([] :: int Shard list) = Inl MakeSliceLenOutOfRange" by blast
  from NewCSMap_outcomes[of 4611686018427387904 "[] :: int Shard list"] big
  have 4: "NewCSMap 4611686018427387904 ([] :: int Shard list) = Inl MakeSliceLenOutOfRange"
    by blast
  from NewCSMap_outcomes[of 0 "[] :: int Shard list"]
  have 2: "NewCSMap 0 ([] :: int Shard list) = Inr (\<lparr>shards = [], length' = 0\<rparr>, [])"
    and 3: "Get \<lparr>shards = [], length' = 0\<rparr> (IntKey 1) ([] :: int Shard list) = Inl DivideByZero"
    by blast+
  from NewCSMap_outcomes[of 2 "[] :: int Shard list"] b
  obtain c h' where c: "NewCSMap 2 ([] :: int Shard list) = Inr (c, h')"
    "length (shards c) = nat (sint (2 :: 64 word))"
    "h' = [] @ replicate (nat (sint (2 :: 64 word))) new_shard"
    "\<forall>j < nat (sint (2 :: 64 word)). shards c ! j = Some (length ([] :: int Shard list) + j) \<and> deref h' (shards c ! j) = Inr new_shard"
    by blast
  have "shards c = [Some 0, Some 1]"
    using c(2,4) unfolding n2 by (auto simp: list_eq_iff_nth_eq less_Suc_eq numeral_2_eq_2)
  moreover have "h' = [new_shard, new_shard]"
    using c(3) unfolding n2 by (simp add: numeral_2_eq_2)
  ultimately show ?thesis using 1 2 3 4 c(1) by blast
qed

section \<open>Set, Get and Delete on one key\<close>

text \<open>
  What holds: when the calls are given one and the same memory image of a key, and the
  key is not a NaN, they work on one shard. In every state of a map with at least one
  shard \<open>Get\<close> after \<open>Set\<close> returns the value set, \<open>Get\<close> after \<open>Delete\<close> finds nothing,
  and of two \<open>Set\<close> the second wins.
\<close>

lemma Set_Get_same_image:
  assumes "csmap_inv c h" and "length' c \<noteq> 0" and "\<not> is_nan k"
  shows "\<exists>h'. Set c k v h = Inr h' \<and> Get c k h' = Inr ((v, True), h')"
proof -
  from getShard_inv[OF assms(1,2), of k] obtain a where
    a: "getShard c k = Inr (Some a)" "a < length h" "mu (h ! a) = unlocked" by blast
  let ?h' = "h[a := (h ! a)\<lparr>m := map_assign k v (m (h ! a))\<rparr>]"
  have s: "Set c k v h = Inr ?h'" by (rule Set_eq[OF a])
  have "Get c k ?h' = Inr (map_index (m (?h' ! a)) k, ?h')"
    using a by (intro Get_eq) simp_all
  then have "Get c k ?h' = Inr ((v, True), ?h')"
    using a(2) assms(3) by (simp add: map_index_def map_assign_def)
  with s show ?thesis by blast
qed

lemma Delete_Get_same_image:
  assumes "csmap_inv c h" and "length' c \<noteq> 0"
  shows "\<exists>h'. Delete c k h = Inr h' \<and> Get c k h' = Inr ((0, False), h')"
proof -
  from getShard_inv[OF assms, of k] obtain a where
    a: "getShard c k = Inr (Some a)" "a < length h" "mu (h ! a) = unlocked" by blast
  let ?h' = "h[a := (h ! a)\<lparr>m := map_delete k (m (h ! a))\<rparr>]"
  have s: "Delete c k h = Inr ?h'" by (rule Delete_eq[OF a])
  have "Get c k ?h' = Inr (map_index (m (?h' ! a)) k, ?h')"
    using a by (intro Get_eq) simp_all
  then have "Get c k ?h' = Inr ((0, False), ?h')"
    using a(2) by (simp add: map_index_def map_delete_def)
  with s show ?thesis by blast
qed

lemma Set_Set_Get_same_image:
  assumes "csmap_inv c h" and "length' c \<noteq> 0" and "\<not> is_nan k"
  shows "\<exists>h1 h2. Set c k v1 h = Inr h1 \<and> Set c k v2 h1 = Inr h2 \<and>
           Get c k h2 = Inr ((v2, True), h2)"
proof -
  from getShard_inv[OF assms(1,2), of k] obtain a where
    a: "getShard c k = Inr (Some a)" "a < length h" "mu (h ! a) = unlocked" by blast
  let ?h1 = "h[a := (h ! a)\<lparr>m := map_assign k v1 (m (h ! a))\<rparr>]"
  let ?h2 = "?h1[a := (?h1 ! a)\<lparr>m := map_assign k v2 (m (?h1 ! a))\<rparr>]"
  have s1: "Set c k v1 h = Inr ?h1" by (rule Set_eq[OF a])
  have s2: "Set c k v2 ?h1 = Inr ?h2"
    using a by (intro Set_eq) simp_all
  have "Get c k ?h2 = Inr (map_index (m (?h2 ! a)) k, ?h2)"
    using a by (intro Get_eq) simp_all
  then have "Get c k ?h2 = Inr ((v2, True), ?h2)"
    using a(2) assms(3) by (simp add: map_index_def map_assign_def)
  with s1 s2 show ?thesis by blast
qed

text \<open>
  Claim C3: for every key \<open>k\<close> and value \<open>v\<close>, right after \<open>Set(k, v)\<close> the call \<open>Get(k)\<close>
  returns \<open>(v, true)\<close>.

  The code breaks this for a \<open>string\<close> key that reaches the two calls through different
  storage. In the fresh map of two shards, \<open>Set\<close> with \<open>"key1"\<close> stored at address 4096
  writes to the shard at position 0; \<open>Get\<close> with the equal key \<open>"key1"\<close> stored at address
  4101 looks in the shard at position 1 and returns the zero value and \<open>false\<close>.
\<close>

theorem Get_misses_equal_string_key:
  "NewCSMap 2 ([] :: int Shard list) = Inr (\<lparr>shards = [Some 0, Some 1], length' = 2\<rparr>, ([new_shard, new_shard] :: int Shard list)) \<and>
   key_eq (StringKey 4096 ''key1'') (StringKey 4101 ''key1'') \<and>
   Set \<lparr>shards = [Some 0, Some 1], length' = 2\<rparr> (StringKey 4096 ''key1'') 1 ([new_shard, new_shard] :: int Shard list) = Inr [new_shard\<lparr>m := make_map\<lparr>entries := [StringValue ''key1'' \<mapsto> (1::int)]\<rparr>\<rparr>, new_shard] \<and>
   Get \<lparr>shards = [Some 0, Some 1], length' = 2\<rparr> (StringKey 4101 ''key1'') [new_shard\<lparr>m := make_map\<lparr>entries := [StringValue ''key1'' \<mapsto> (1::int)]\<rparr>\<rparr>, new_shard] = Inr ((0, False), [new_shard\<lparr>m := make_map\<lparr>entries := [StringValue ''key1'' \<mapsto> (1::int)]\<rparr>\<rparr>, new_shard])"
  by (simp add: NewCSMap_two Set_def Get_def Delete_def getShard_def hash_def on_mu_def on_m_def deref_def
        Lock_def Unlock_def RLock_def RUnlock_def map_assign_def map_delete_def map_index_def
        make_map_def new_shard_def unlocked_def key_eq_def)

text \<open>
  Claim C4: for every key \<open>k\<close>, right after \<open>Delete(k)\<close> the call \<open>Get(k)\<close> returns
  \<open>found = false\<close>.

  The code breaks this in the same way. In the map of two shards where \<open>"key1"\<close>, stored
  at address 4096, has been set to 1, \<open>Delete\<close> with the equal key stored at address 4101
  works on the shard at position 1 and removes nothing; \<open>Get\<close> with the first key still
  returns \<open>(1, true)\<close>.
\<close>

theorem Delete_leaves_equal_string_key:
  "key_eq (StringKey 4101 ''key1'') (StringKey 4096 ''key1'') \<and>
   Set \<lparr>shards = [Some 0, Some 1], length' = 2\<rparr> (StringKey 4096 ''key1'') 1 ([new_shard, new_shard] :: int Shard list) = Inr [new_shard\<lparr>m := make_map\<lparr>entries := [StringValue ''key1'' \<mapsto> (1::int)]\<rparr>\<rparr>, new_shard] \<and>
   Delete \<lparr>shards = [Some 0, Some 1], length' = 2\<rparr> (StringKey 4101 ''key1'') [new_shard\<lparr>m := make_map\<lparr>entries := [StringValue ''key1'' \<mapsto> (1::int)]\<rparr>\<rparr>, new_shard] = Inr [new_shard\<lparr>m := make_map\<lparr>entries := [StringValue ''key1'' \<mapsto> (1::int)]\<rparr>\<rparr>, new_shard] \<and>
   Get \<lparr>shards = [Some 0, Some 1], length' = 2\<rparr> (StringKey 4096 ''key1'') [new_shard\<lparr>m := make_map\<lparr>entries := [StringValue ''key1'' \<mapsto> (1::int)]\<rparr>\<rparr>, new_shard] = Inr ((1, True), [new_shard\<lparr>m := make_map\<lparr>entries := [StringValue ''key1'' \<mapsto> (1::int)]\<rparr>\<rparr>, new_shard])"
  by (simp add: Set_def Get_def Delete_def getShard_def hash_def on_mu_def on_m_def deref_def
        Lock_def Unlock_def RLock_def RUnlock_def map_assign_def map_delete_def map_index_def
        make_map_def new_shard_def unlocked_def key_eq_def)

text \<open>
  Claim C5: \<open>Set(k, v1)\<close> and then \<open>Set(k, v2)\<close> leave a state in which \<open>Get(k)\<close> returns
  \<open>(v2, true)\<close>.

  The code breaks this in the same way. In the fresh map of two shards, after \<open>Set\<close> of
  \<open>"key1"\<close> stored at address 4096 to 1 and \<open>Set\<close> of the equal key stored at address 4101
  to 2, \<open>Get\<close> with the first key returns \<open>(1, true)\<close>: the value written first, not the
  one written last.
\<close>

theorem first_Set_wins_for_equal_string_key:
  "key_eq (StringKey 4096 ''key1'') (StringKey 4101 ''key1'') \<and>
   Set \<lparr>shards = [Some 0, Some 1], length' = 2\<rparr> (StringKey 4096 ''key1'') 1 ([new_shard, new_shard] :: int Shard list) = Inr [new_shard\<lparr>m := make_map\<lparr>entries := [StringValue ''key1'' \<mapsto> (1::int)]\<rparr>\<rparr>, new_shard] \<and>
   Set \<lparr>shards = [Some 0, Some 1], length' = 2\<rparr> (StringKey 4101 ''key1'') 2 [new_shard\<lparr>m := make_map\<lparr>entries := [StringValue ''key1'' \<mapsto> (1::int)]\<rparr>\<rparr>, new_shard] = Inr [new_shard\<lparr>m := make_map\<lparr>entries := [StringValue ''key1'' \<mapsto> (1::int)]\<rparr>\<rparr>,
      new_shard\<lparr>m := make_map\<lparr>entries := [StringValue ''key1'' \<mapsto> (2::int)]\<rparr>\<rparr>] \<and>
   Get \<lparr>shards = [Some 0, Some 1], length' = 2\<rparr> (StringKey 4096 ''key1'') [new_shard\<lparr>m := make_map\<lparr>entries := [StringValue ''key1'' \<mapsto> (1::int)]\<rparr>\<rparr>,
      new_shard\<lparr>m := make_map\<lparr>entries := [StringValue ''key1'' \<mapsto> (2::int)]\<rparr>\<rparr>] = Inr ((1, True), [new_shard\<lparr>m := make_map\<lparr>entries := [StringValue ''key1'' \<mapsto> (1::int)]\<rparr>\<rparr>,
      new_shard\<lparr>m := make_map\<lparr>entries := [StringValue ''key1'' \<mapsto> (2::int)]\<rparr>\<rparr>]) \<and>
   Get \<lparr>shards = [Some 0, Some 1], length' = 2\<rparr> (StringKey 4096 ''key1'') [new_shard\<lparr>m := make_map\<lparr>entries := [StringValue ''key1'' \<mapsto> (1::int)]\<rparr>\<rparr>,
      new_shard\<lparr>m := make_map\<lparr>entries := [StringValue ''key1'' \<mapsto> (2::int)]\<rparr>\<rparr>] \<noteq> Inr ((2, True), [new_shard\<lparr>m := make_map\<lparr>entries := [StringValue ''key1'' \<mapsto> (1::int)]\<rparr>\<rparr>,
      new_shard\<lparr>m := make_map\<lparr>entries := [StringValue ''key1'' \<mapsto> (2::int)]\<rparr>\<rparr>])"
  by (simp add: Set_def Get_def Delete_def getShard_def hash_def on_mu_def on_m_def deref_def
        Lock_def Unlock_def RLock_def RUnlock_def map_assign_def map_delete_def map_index_def
        make_map_def new_shard_def unlocked_def key_eq_def)

text \<open>
  An \<open>int32\<close> key is routed by the bytes that follow it in memory, which need not be
  the same in two calls. In a fresh map of three shards, \<open>Set\<close> of the key 7 with zero
  bytes after it writes to the shard at position 1; \<open>Get\<close> of the key 7 with other bytes
  after it looks in the shard at position 2 and finds nothing.
\<close>

lemma Get_misses_int32_key:
  "key_eq (Int32Key 7 0) (Int32Key 7 1) \<and>
   Set \<lparr>shards = [Some 0, Some 1, Some 2], length' = 3\<rparr> (Int32Key 7 0) 1 [new_shard, new_shard, new_shard] =
     Inr [new_shard, new_shard\<lparr>m := make_map\<lparr>entries := [Int32Value 7 \<mapsto> (1::int)]\<rparr>\<rparr>, new_shard] \<and>
   Get \<lparr>shards = [Some 0, Some 1, Some 2], length' = 3\<rparr> (Int32Key 7 1) [new_shard, new_shard\<lparr>m := make_map\<lparr>entries := [Int32Value 7 \<mapsto> (1::int)]\<rparr>\<rparr>, new_shard] =
     Inr ((0, False), [new_shard, new_shard\<lparr>m := make_map\<lparr>entries := [Int32Value 7 \<mapsto> (1::int)]\<rparr>\<rparr>, new_shard])"
  by (simp add: Set_def Get_def getShard_def hash_def on_mu_def on_m_def deref_def
        Lock_def Unlock_def RLock_def RUnlock_def map_assign_def map_index_def
        make_map_def new_shard_def unlocked_def key_eq_def)

text \<open>
  A NaN key is never found again, as in any Go map: \<open>Set\<close> adds an entry that \<open>Get\<close>
  cannot reach.
\<close>

lemma NaN_key_is_never_found:
  "is_nan (Float64Key 9221120237041090561) \<and>
   Set \<lparr>shards = [Some 0, Some 1], length' = 2\<rparr> (Float64Key 9221120237041090561) 1 ([new_shard, new_shard] :: int Shard list) =
     Inr [new_shard, new_shard\<lparr>m := make_map\<lparr>nan_entries := [1::int]\<rparr>\<rparr>] \<and>
   Get \<lparr>shards = [Some 0, Some 1], length' = 2\<rparr> (Float64Key 9221120237041090561)
       [new_shard, new_shard\<lparr>m := make_map\<lparr>nan_entries := [1::int]\<rparr>\<rparr>] =
     Inr ((0, False), [new_shard, new_shard\<lparr>m := make_map\<lparr>nan_entries := [1::int]\<rparr>\<rparr>])"
  by (simp add: float_is_nan_def Set_def Get_def Delete_def getShard_def hash_def on_mu_def on_m_def deref_def
        Lock_def Unlock_def RLock_def RUnlock_def map_assign_def map_delete_def map_index_def
        make_map_def new_shard_def unlocked_def key_eq_def)

section \<open>One shard for each key\<close>

text \<open>
  In a map that is used with \<open>int\<close> keys only, every entry stays in the shard that
  \<open>hash\<close> computes for its key, so that no key value has entries in two shards.
\<close>

lemma holds_update:
  assumes "csmap_inv c h" and "shards c ! s = Some a" and "s < length (shards c)"
    and "a < length h" and "j < length (shards c)"
  shows "holds c (h[a := (h ! a)\<lparr>m := f (m (h ! a))\<rparr>]) j kv \<longleftrightarrow>
           (if j = s then entries (f (m (h ! a))) kv \<noteq> None else holds c h j kv)"
proof (cases "j = s")
  case True
  then show ?thesis using assms(2,4) by (simp add: holds_def deref_def)
next
  case False
  from other_slot_other_address[OF assms(1,2,3,5) False]
  show ?thesis using False by (simp add: holds_def deref_update_other)
qed

lemma routed_one_shard:
  assumes "int_keys_routed c h" and "i < length (shards c)" and "j < length (shards c)"
    and "holds c h i kv" and "holds c h j kv"
  shows "i = j"
  using assms unfolding int_keys_routed_def by (metis key_value.inject(1))

lemma NewCSMap_routed:
  assumes "NewCSMap len h = Inr (c, h')"
  shows "int_keys_routed c h'"
proof -
  have nn: "0 \<le> sint len" and le: "sint len \<le> max_slice_len"
    using NewCSMap_accepted[OF assms] by simp_all
  have c: "c = \<lparr>shards = map Some [length h ..< length h + nat (sint len)], length' = len\<rparr>"
    and h': "h' = h @ replicate (nat (sint len)) new_shard"
    using assms NewCSMap_eq[OF nn le, of h] by simp_all
  show ?thesis
    unfolding int_keys_routed_def holds_def c h'
    by (auto simp: deref_def nth_append new_shard_def make_map_def)
qed

lemma Set_int_key_routed:
  assumes "csmap_inv c h" and "int_keys_routed c h" and "Set c (IntKey i) v h = Inr h'"
  shows "int_keys_routed c h'"
proof (cases "length' c = 0")
  case True
  then show ?thesis using assms(3) Set_zero_length[of c "IntKey i" v h] by simp
next
  case False
  from getShard_inv[OF assms(1) False, of "IntKey i"] obtain a where
    a: "getShard c (IntKey i) = Inr (Some a)" "a < length h" "mu (h ! a) = unlocked"
    and sl: "shards c ! slot c (IntKey i) = Some a" "slot c (IntKey i) < length (shards c)"
    by blast
  have h': "h' = h[a := (h ! a)\<lparr>m := map_assign (IntKey i) v (m (h ! a))\<rparr>]"
    using assms(3) unfolding Set_eq[OF a] by simp
  have old: "\<And>kv. entries (m (h ! a)) kv \<noteq> None \<Longrightarrow> holds c h (slot c (IntKey i)) kv"
    using sl(1) a(2) by (simp add: holds_def deref_def)
  show ?thesis
    unfolding int_keys_routed_def h'
  proof (intro allI impI)
    fix j kv
    assume j: "j < length (shards c)"
      and hd: "holds c (h[a := (h ! a)\<lparr>m := map_assign (IntKey i) v (m (h ! a))\<rparr>]) j kv"
    from hd holds_update[OF assms(1) sl a(2) j, of "map_assign (IntKey i) v" kv]
    have "(j = slot c (IntKey i) \<and> (kv = IntValue i \<or> entries (m (h ! a)) kv \<noteq> None)) \<or>
          holds c h j kv"
      by (auto simp: map_assign_def split: if_splits)
    then have "kv = IntValue i \<and> j = slot c (IntKey i) \<or> holds c h j kv"
      using old by blast
    then show "\<exists>i. kv = IntValue i \<and> slot c (IntKey i) = j"
      using assms(2) j unfolding int_keys_routed_def by blast
  qed
qed

lemma Delete_routed:
  assumes "csmap_inv c h" and "int_keys_routed c h" and "Delete c k h = Inr h'"
  shows "int_keys_routed c h'"
proof (cases "length' c = 0")
  case True
  then show ?thesis using assms(3) Delete_zero_length[of c k h] by simp
next
  case False
  from getShard_inv[OF assms(1) False, of k] obtain a where
    a: "getShard c k = Inr (Some a)" "a < length h" "mu (h ! a) = unlocked"
    and sl: "shards c ! slot c k = Some a" "slot c k < length (shards c)"
    by blast
  have h': "h' = h[a := (h ! a)\<lparr>m := map_delete k (m (h ! a))\<rparr>]"
    using assms(3) unfolding Delete_eq[OF a] by simp
  have old: "\<And>kv. entries (m (h ! a)) kv \<noteq> None \<Longrightarrow> holds c h (slot c k) kv"
    using sl(1) a(2) by (simp add: holds_def deref_def)
  show ?thesis
    unfolding int_keys_routed_def h'
  proof (intro allI impI)
    fix j kv
    assume j: "j < length (shards c)"
      and hd: "holds c (h[a := (h ! a)\<lparr>m := map_delete k (m (h ! a))\<rparr>]) j kv"
    from hd holds_update[OF assms(1) sl a(2) j, of "map_delete k" kv]
    have "(j = slot c k \<and> entries (m (h ! a)) kv \<noteq> None) \<or> holds c h j kv"
      by (auto simp: map_delete_def split: if_splits)
    then have "holds c h j kv"
      using old by blast
    then show "\<exists>i. kv = IntValue i \<and> slot c (IntKey i) = j"
      using assms(2) j unfolding int_keys_routed_def by blast
  qed
qed


text \<open>
  Claim C6: from construction onward, each key is present in the mapping of at most one
  shard.

  The code breaks this for \<open>string\<close> keys. In a fresh map of two shards, \<open>Set\<close> with
  \<open>"key1"\<close> stored at address 4096 writes to the shard at position 0 and \<open>Set\<close> with the
  equal key \<open>"key1"\<close> stored at address 4101 writes to the shard at position 1; then both
  mappings have an entry for \<open>"key1"\<close>, and \<open>Get\<close> with the first key still returns the
  value that was set first.
\<close>

theorem equal_string_keys_in_two_shards:
  "NewCSMap 2 ([] :: int Shard list) = Inr (\<lparr>shards = [Some 0, Some 1], length' = 2\<rparr>, ([new_shard, new_shard] :: int Shard list)) \<and>
   key_eq (StringKey 4096 ''key1'') (StringKey 4101 ''key1'') \<and>
   Set \<lparr>shards = [Some 0, Some 1], length' = 2\<rparr> (StringKey 4096 ''key1'') 1 ([new_shard, new_shard] :: int Shard list) = Inr [new_shard\<lparr>m := make_map\<lparr>entries := [StringValue ''key1'' \<mapsto> (1::int)]\<rparr>\<rparr>, new_shard] \<and>
   Set \<lparr>shards = [Some 0, Some 1], length' = 2\<rparr> (StringKey 4101 ''key1'') 2 [new_shard\<lparr>m := make_map\<lparr>entries := [StringValue ''key1'' \<mapsto> (1::int)]\<rparr>\<rparr>, new_shard] = Inr [new_shard\<lparr>m := make_map\<lparr>entries := [StringValue ''key1'' \<mapsto> (1::int)]\<rparr>\<rparr>,
      new_shard\<lparr>m := make_map\<lparr>entries := [StringValue ''key1'' \<mapsto> (2::int)]\<rparr>\<rparr>] \<and>
   entries (m ([new_shard\<lparr>m := make_map\<lparr>entries := [StringValue ''key1'' \<mapsto> (1::int)]\<rparr>\<rparr>,
      new_shard\<lparr>m := make_map\<lparr>entries := [StringValue ''key1'' \<mapsto> (2::int)]\<rparr>\<rparr>] ! 0)) (StringValue ''key1'') = Some 1 \<and>
   entries (m ([new_shard\<lparr>m := make_map\<lparr>entries := [StringValue ''key1'' \<mapsto> (1::int)]\<rparr>\<rparr>,
      new_shard\<lparr>m := make_map\<lparr>entries := [StringValue ''key1'' \<mapsto> (2::int)]\<rparr>\<rparr>] ! 1)) (StringValue ''key1'') = Some 2 \<and>
   Get \<lparr>shards = [Some 0, Some 1], length' = 2\<rparr> (StringKey 4096 ''key1'') [new_shard\<lparr>m := make_map\<lparr>entries := [StringValue ''key1'' \<mapsto> (1::int)]\<rparr>\<rparr>,
      new_shard\<lparr>m := make_map\<lparr>entries := [StringValue ''key1'' \<mapsto> (2::int)]\<rparr>\<rparr>] = Inr ((1, True), [new_shard\<lparr>m := make_map\<lparr>entries := [StringValue ''key1'' \<mapsto> (1::int)]\<rparr>\<rparr>,
      new_shard\<lparr>m := make_map\<lparr>entries := [StringValue ''key1'' \<mapsto> (2::int)]\<rparr>\<rparr>])"
  by (simp add: NewCSMap_two Set_def Get_def Delete_def getShard_def hash_def on_mu_def on_m_def deref_def
        Lock_def Unlock_def RLock_def RUnlock_def map_assign_def map_delete_def map_index_def
        make_map_def new_shard_def unlocked_def key_eq_def)

section \<open>Frame properties\<close>

text \<open>
  Claim C7: \<open>Set\<close>, \<open>Get\<close> and \<open>Delete\<close> work on the one shard that \<open>getShard\<close> returns
  for the key, and leave every other shard as it was. Each of the three definitions calls
  \<open>getShard\<close> once. In a state of a map with at least one shard: the heap after \<open>Set\<close> or
  \<open>Delete\<close> has the same size and differs from the heap before at most at the address
  \<open>a\<close> of that shard, whose lock is free again; \<open>Get\<close> returns the heap it was given; and
  every other position of \<open>shards\<close> points to the same shard contents as before.
\<close>

theorem operations_touch_one_shard:
  assumes "csmap_inv c h" and "length' c \<noteq> 0"
  shows "\<exists>a h1 h2 r.
     getShard c k = Inr (Some a) \<and> shards c ! slot c k = Some a \<and>
     Set c k v h = Inr h1 \<and> Delete c k h = Inr h2 \<and> Get c k h = Inr (r, h) \<and>
     length h1 = length h \<and> length h2 = length h \<and>
     mu (h1 ! a) = mu (h ! a) \<and> mu (h2 ! a) = mu (h ! a) \<and>
     (\<forall>b < length h. b \<noteq> a \<longrightarrow> h1 ! b = h ! b \<and> h2 ! b = h ! b) \<and>
     (\<forall>j < length (shards c). j \<noteq> slot c k \<longrightarrow>
        deref h1 (shards c ! j) = deref h (shards c ! j) \<and>
        deref h2 (shards c ! j) = deref h (shards c ! j))"
proof -
  from getShard_inv[OF assms, of k] obtain a where
    a: "getShard c k = Inr (Some a)" "a < length h" "mu (h ! a) = unlocked"
    and sl: "shards c ! slot c k = Some a" "slot c k < length (shards c)" by blast
  let ?h1 = "h[a := (h ! a)\<lparr>m := map_assign k v (m (h ! a))\<rparr>]"
  let ?h2 = "h[a := (h ! a)\<lparr>m := map_delete k (m (h ! a))\<rparr>]"
  have s: "Set c k v h = Inr ?h1" by (rule Set_eq[OF a])
  have d: "Delete c k h = Inr ?h2" by (rule Delete_eq[OF a])
  have g: "Get c k h = Inr (map_index (m (h ! a)) k, h)" by (rule Get_eq[OF a])
  have len: "length ?h1 = length h" "length ?h2 = length h" by simp_all
  have lock: "mu (?h1 ! a) = mu (h ! a)" "mu (?h2 ! a) = mu (h ! a)"
    using a(2) by simp_all
  have frame: "\<forall>b < length h. b \<noteq> a \<longrightarrow> ?h1 ! b = h ! b \<and> ?h2 ! b = h ! b"
    by simp
  have others: "\<forall>j < length (shards c). j \<noteq> slot c k \<longrightarrow>
        deref ?h1 (shards c ! j) = deref h (shards c ! j) \<and>
        deref ?h2 (shards c ! j) = deref h (shards c ! j)"
    using other_slot_other_address[OF assms(1) sl]
    by (simp add: deref_update_other)
  from a(1) sl(1) s d g len lock frame others show ?thesis by blast
qed

text \<open>
  In the fresh map of two shards the key 7 belongs to position 1; the shard at position 0
  is untouched.
\<close>

theorem operations_touch_one_shard_witness:
  "csmap_inv \<lparr>shards = [Some 0, Some 1], length' = 2\<rparr> ([new_shard, new_shard] :: int Shard list) \<and>
   length' \<lparr>shards = [Some 0, Some 1], length' = 2\<rparr> \<noteq> 0 \<and>
   (\<exists>h1 h2 r. Set \<lparr>shards = [Some 0, Some 1], length' = 2\<rparr> (IntKey 7) 1 ([new_shard, new_shard] :: int Shard list) = Inr h1 \<and> Delete \<lparr>shards = [Some 0, Some 1], length' = 2\<rparr> (IntKey 7) ([new_shard, new_shard] :: int Shard list) = Inr h2 \<and>
      Get \<lparr>shards = [Some 0, Some 1], length' = 2\<rparr> (IntKey 7) ([new_shard, new_shard] :: int Shard list) = Inr (r, ([new_shard, new_shard] :: int Shard list)) \<and>
      h1 ! 0 = new_shard \<and> h2 ! 0 = new_shard \<and> mu (h1 ! 1) = unlocked)"
proof -
  from operations_touch_one_shard[OF two_shards_inv two_shards_nonzero, of "IntKey 7" 1]
  obtain a h1 h2 r where
    a: "shards \<lparr>shards = [Some 0, Some 1], length' = 2\<rparr> ! slot \<lparr>shards = [Some 0, Some 1], length' = 2\<rparr> (IntKey 7) = Some a"
    and ops: "Set \<lparr>shards = [Some 0, Some 1], length' = 2\<rparr> (IntKey 7) 1 ([new_shard, new_shard] :: int Shard list) = Inr h1" "Delete \<lparr>shards = [Some 0, Some 1], length' = 2\<rparr> (IntKey 7) ([new_shard, new_shard] :: int Shard list) = Inr h2"
       "Get \<lparr>shards = [Some 0, Some 1], length' = 2\<rparr> (IntKey 7) ([new_shard, new_shard] :: int Shard list) = Inr (r, ([new_shard, new_shard] :: int Shard list))"
    and lock: "mu (h1 ! a) = mu (([new_shard, new_shard] :: int Shard list) ! a)"
    and frame: "\<forall>b < length ([new_shard, new_shard] :: int Shard list). b \<noteq> a \<longrightarrow> h1 ! b = ([new_shard, new_shard] :: int Shard list) ! b \<and> h2 ! b = ([new_shard, new_shard] :: int Shard list) ! b"
    by blast
  have "slot \<lparr>shards = [Some 0, Some 1], length' = 2\<rparr> (IntKey 7) = 1"
    by (simp add: slot_def)
  then have a1: "a = 1" using a by simp
  have "h1 ! 0 = new_shard" "h2 ! 0 = new_shard" "mu (h1 ! 1) = unlocked"
    using frame lock unfolding a1 by (simp_all add: new_shard_def)
  with ops two_shards_inv two_shards_nonzero show ?thesis by blast
qed








section \<open>The index stays inside the slice\<close>

text \<open>
  Claim C10: for a map that \<open>NewCSMap\<close> returned for a length \<open>n\<close>. If \<open>n\<close> is at least 1,
  then for every key \<open>hash\<close> returns the first word of the key modulo \<open>n\<close>, this index is
  below \<open>n\<close>, the number of shards, and \<open>getShard\<close> reads the slice inside its bounds and
  finds the address of an allocated shard. If \<open>n\<close> is 0, every \<open>Set\<close>, \<open>Get\<close> and \<open>Delete\<close>
  stops with a division by zero.
\<close>

theorem hash_index_in_bounds:
  assumes "NewCSMap len h = Inr (c, h')"
  shows "(0 < sint len \<longrightarrow>
           (\<forall>k. \<exists>i a. hash c k = Inr i \<and> i = first_word k mod len \<and>
                  unat i < length (shards c) \<and> unat i < nat (sint len) \<and>
                  getShard c k = Inr (Some a) \<and> shards c ! unat i = Some a \<and>
                  a < length h')) \<and>
         (len = 0 \<longrightarrow>
           (\<forall>k v g. Set c k v g = Inl DivideByZero \<and>
                    Get c k (g :: 'v::zero heap) = Inl DivideByZero \<and>
                    Delete c k g = Inl DivideByZero))"
proof -
  have nn: "0 \<le> sint len" and le: "sint len \<le> max_slice_len"
    using NewCSMap_accepted[OF assms] by simp_all
  have lc: "length' c = len" using assms NewCSMap_eq[OF nn le, of h] by auto
  have i: "csmap_inv c h'" using assms by (rule NewCSMap_inv)
  have len: "length (shards c) = nat (sint len)"
    using i lc by (simp add: csmap_inv_def nat_sint_unat[OF nn])
  show ?thesis
  proof (intro conjI impI allI)
    fix k
    assume "0 < sint len"
    then have "len \<noteq> 0" by auto
    then have n: "length' c \<noteq> 0" using lc by simp
    from getShard_inv[OF i n, of k] obtain a where
      a: "getShard c k = Inr (Some a)" "shards c ! slot c k = Some a"
         "slot c k < length (shards c)" "a < length h'" by blast
    have "hash c k = Inr (first_word k mod len)" using n lc by (simp add: hash_def)
    then show "\<exists>i a. hash c k = Inr i \<and> i = first_word k mod len \<and>
                  unat i < length (shards c) \<and> unat i < nat (sint len) \<and>
                  getShard c k = Inr (Some a) \<and> shards c ! unat i = Some a \<and>
                  a < length h'"
      using a len lc by (auto simp: slot_def)
  next
    fix k v and g :: "'v heap"
    assume "len = 0"
    then have z: "length' c = 0" using lc by simp
    show "Set c k v g = Inl DivideByZero" by (rule Set_zero_length[OF z])
    show "Get c k g = Inl DivideByZero" by (rule Get_zero_length[OF z])
    show "Delete c k g = Inl DivideByZero" by (rule Delete_zero_length[OF z])
  qed
qed

text \<open>At the lengths 2 and 0.\<close>

theorem hash_index_in_bounds_witness:
  "NewCSMap 2 ([] :: int Shard list) = Inr (\<lparr>shards = [Some 0, Some 1], length' = 2\<rparr>, ([new_shard, new_shard] :: int Shard list)) \<and>
   0 < sint (2 :: 64 word) \<and>
   hash \<lparr>shards = [Some 0, Some 1], length' = 2\<rparr> (StringKey 4096 ''key1'') = Inr 0 \<and>
   getShard \<lparr>shards = [Some 0, Some 1], length' = 2\<rparr> (StringKey 4096 ''key1'') = Inr (Some 0) \<and>
   NewCSMap 0 ([] :: int Shard list) = Inr (\<lparr>shards = [], length' = 0\<rparr>, []) \<and>
   Get \<lparr>shards = [], length' = 0\<rparr> (StringKey 4096 ''key1'') ([] :: int Shard list) = Inl DivideByZero"
proof -
  have p: "0 < sint (2 :: 64 word)" by simp
  from hash_index_in_bounds[OF NewCSMap_two] p
  obtain i a where i: "hash \<lparr>shards = [Some 0, Some 1], length' = 2\<rparr> (StringKey 4096 ''key1'') = Inr i" "i = first_word (StringKey 4096 ''key1'') mod 2"
    "getShard \<lparr>shards = [Some 0, Some 1], length' = 2\<rparr> (StringKey 4096 ''key1'') = Inr (Some a)" "shards \<lparr>shards = [Some 0, Some 1], length' = 2\<rparr> ! unat i = Some a"
    by blast
  have i0: "i = 0" using i(2) by simp
  have a0: "a = 0" using i(4) unfolding i0 by simp
  have z: "NewCSMap 0 ([] :: int Shard list) = Inr (\<lparr>shards = [], length' = 0\<rparr>, [])"
    by (simp add: NewCSMap_eq max_slice_len_def)
  from hash_index_in_bounds[OF z]
  have "Get \<lparr>shards = [], length' = 0\<rparr> (StringKey 4096 ''key1'') ([] :: int Shard list) = Inl DivideByZero"
    by blast
  then show ?thesis using NewCSMap_two p i(1,3) z unfolding i0 a0 by blast
qed

end
